theory Spec2Isabelle
  imports Complex_Main "HOL-Library.Word"
begin

section \<open>JavaScript strings\<close>

text \<open>
  A JavaScript string is a sequence of UTF-16 code units. \<open>js\<close> turns an ASCII
  literal into such a sequence.
\<close>

type_synonym jschar = "16 word"
type_synonym jsstring = "jschar list"

definition js :: "string \<Rightarrow> jsstring" where
  "js s = map (\<lambda>c. word_of_nat (of_char c)) s"

text \<open>
  The characters matched by \<open>\s\<close> in a regular expression, which are also the ones
  removed by \<open>String.prototype.trim\<close>: white space and line terminators.
\<close>

definition is_space :: "jschar \<Rightarrow> bool" where
  "is_space c =
     (c \<in> set [0x09, 0x0A, 0x0B, 0x0C, 0x0D, 0x20, 0xA0, 0x1680, 0x2028, 0x2029,
                0x202F, 0x205F, 0x3000, 0xFEFF]
      \<or> (0x2000 \<le> c \<and> c \<le> 0x200A))"

text \<open>\<open>s.startsWith(p)\<close>; also the test of a regular expression \<open>^p\<close> for a literal \<open>p\<close>.\<close>

definition startsWith :: "jsstring \<Rightarrow> jsstring \<Rightarrow> bool" where
  "startsWith s p = (take (length p) s = p)"

text \<open>\<open>s.includes(sub)\<close>: \<open>sub\<close> occurs in \<open>s\<close> as a contiguous run.\<close>

fun includes_str :: "jsstring \<Rightarrow> jsstring \<Rightarrow> bool" where
  "includes_str [] sub = (sub = [])"
| "includes_str (c # cs) sub = (startsWith (c # cs) sub \<or> includes_str cs sub)"

text \<open>
  \<open>s.split(sep)\<close> for a non-empty separator: the pieces between the occurrences of
  \<open>sep\<close>, found from left to right; always at least one piece. \<open>cur\<close> holds the
  current piece, reversed.
\<close>

function split_from :: "jsstring \<Rightarrow> jsstring \<Rightarrow> jsstring \<Rightarrow> jsstring list" where
  "split_from sep cur s =
     (if s = [] then [rev cur]
      else if sep \<noteq> [] \<and> startsWith s sep
        then rev cur # split_from sep [] (drop (length sep) s)
      else split_from sep (hd s # cur) (tl s))"
  by pat_completeness auto
termination
  by (relation "measure (\<lambda>(sep, cur, s). length s)") auto

declare split_from.simps [simp del]

definition split_str :: "jsstring \<Rightarrow> jsstring \<Rightarrow> jsstring list" where
  "split_str s sep = split_from sep [] s"

text \<open>\<open>lines.join(sep)\<close>.\<close>

fun join_str :: "jsstring list \<Rightarrow> jsstring \<Rightarrow> jsstring" where
  "join_str [] sep = []"
| "join_str [l] sep = l"
| "join_str (l # ls) sep = l @ sep @ join_str ls sep"

text \<open>\<open>s.trim()\<close>.\<close>

definition trim :: "jsstring \<Rightarrow> jsstring" where
  "trim s = rev (dropWhile is_space (rev (dropWhile is_space s)))"

text \<open>\<open>s.substring(a, b)\<close> for non-negative integers \<open>a \<le> b\<close>.\<close>

definition substring :: "jsstring \<Rightarrow> nat \<Rightarrow> nat \<Rightarrow> jsstring" where
  "substring s a b = take (b - a) (drop a s)"

text \<open>\<open>xs[i]\<close> read from an array: \<open>undefined\<close> (here \<open>None\<close>) out of range.\<close>

definition at_index :: "'a list \<Rightarrow> nat \<Rightarrow> 'a option" where
  "at_index xs i = (if i < length xs then Some (xs ! i) else None)"

section \<open>Errors\<close>

text \<open>
  Each constructor but the last is a \<open>TypeError\<close> of the source, named after the
  value that is \<open>undefined\<close> or \<open>null\<close> where a property of it is read.
\<close>

datatype error =
    SecondLineUndefined    \<comment> \<open>\<open>secondLine.match\<close> in \<open>correctWhitespace\<close>\<close>
  | RuleUndefined          \<comment> \<open>\<open>rule.split\<close> in \<open>highlight\<close>\<close>
  | TokenUndefined         \<comment> \<open>\<open>tokens[i].color = color\<close> in \<open>highlight\<close>\<close>
  | OldHighlightedNull     \<comment> \<open>\<open>this.oldHighlighted()[i]\<close> in \<open>highlighted\<close>, on \<open>null\<close>\<close>
  | OldTokenUndefined      \<comment> \<open>\<open>oldToken.color\<close> in \<open>highlighted\<close>\<close>
  | LastUndefined          \<comment> \<open>\<open>a.slice(-1)[0].concat\<close> in \<open>tokens\<close>\<close>
  | StyleUndefined         \<comment> \<open>\<open>highlightTree\<close> reading an undefined style in \<open>highlight\<close>\<close>
  | NewHighlightedUndefined \<comment> \<open>\<open>this.newHighlighted().map\<close> in \<open>highlighted\<close>\<close>
  | OldHighlightedUndefined \<comment> \<open>\<open>this.oldHighlighted()[i]\<close> in \<open>highlighted\<close>, on \<open>undefined\<close>\<close>
  | HighlightedUndefined   \<comment> \<open>\<open>this.highlighted().map\<close> in \<open>tokens\<close>\<close>
  | ColorUnreadable        \<comment> \<open>the \<open>Error\<close> of the colour library in \<open>blendHsl\<close>\<close>

section \<open>correctWhitespace\<close>

text \<open>\<open>line.match(/^\s*$/)\<close>: every character of the line is white space.\<close>

definition blank :: "jsstring \<Rightarrow> bool" where
  "blank line = list_all is_space line"

text \<open>\<open>line.replace(re, '')\<close> where \<open>re\<close> is \<open>^indent\<close>.\<close>

definition strip_indent :: "jsstring \<Rightarrow> jsstring \<Rightarrow> jsstring" where
  "strip_indent indent line =
     (if startsWith line indent then drop (length indent) line else line)"

definition firstLine :: "jsstring \<Rightarrow> jsstring" where
  "firstLine str = hd (split_str str (js ''\<newline>''))"

definition correctWhitespace :: "jsstring \<Rightarrow> error + jsstring" where
  "correctWhitespace str =
     (let lines = split_str str (js ''\<newline>'')
      in if \<not> blank (firstLine str) then Inr str
         else (case at_index lines 1 of
                 None \<Rightarrow> Inl SecondLineUndefined
               | Some secondLine \<Rightarrow>
                   (let indent = takeWhile is_space secondLine
                    in Inr (join_str (map (strip_indent indent) (tl lines)) (js ''\<newline>'')))))"

section \<open>Tokens\<close>

text \<open>
  A token of the source: \<open>{token: string; color: string}\<close>. The colour is
  \<open>undefined\<close> (here \<open>None\<close>) when the rule found for a class has no \<open>color:\<close>.
\<close>

record tok =
  token :: jsstring
  color :: "jsstring option"

text \<open>
  The \<open>reduce\<close> at the end of \<open>highlight\<close>, one step and the whole fold. The
  source extends the text of the last object of \<open>acc\<close> in place; that object is
  also an element of \<open>tokens\<close>, one that \<open>reduce\<close> has already passed, so the
  update is not seen by a later step.
\<close>

definition join_step :: "tok list \<Rightarrow> tok \<Rightarrow> tok list" where
  "join_step acc t =
     (if length acc = 0 then [t]
      else if color (last acc) = color t
        then butlast acc @ [(last acc)\<lparr>token := token (last acc) @ token t\<rparr>]
      else acc @ [t])"

definition join_tokens :: "tok list \<Rightarrow> tok list" where
  "join_tokens tokens = foldl join_step [] tokens"

section \<open>The node and what it calls\<close>

text \<open>
  Of a \<open>HighlightStyle\<close> the code reads only the text of its rules,
  \<open>style.module.getRules()\<close>.
\<close>

datatype HighlightStyle = HighlightStyle (getRules: jsstring)

text \<open>
  The signals of the node that the pipeline reads. \<open>code\<close> holds the value stored
  by the signal, that is after its parser \<open>correctWhitespace\<close>; \<open>fallbackColor\<close>
  holds \<open>this.fallbackColor().hex()\<close>. \<open>style\<close> has no initial value and is
  optional in the properties of the node: \<open>None\<close> is \<open>undefined\<close>. For
  \<open>oldStyle\<close>, \<open>None\<close> is \<open>null\<close>, and also the \<open>undefined\<close> that line 64 stores
  when \<open>style\<close> is \<open>undefined\<close>: the code reads \<open>oldStyle\<close> only in \<open>!oldStyle\<close>.
  For \<open>styleProgress\<close>, \<open>None\<close> is \<open>null\<close>.
\<close>

record Code =
  code :: jsstring
  fallbackColor :: jsstring
  style :: "HighlightStyle option"
  oldStyle :: "HighlightStyle option"
  styleProgress :: "real option"

text \<open>
  Three libraries are parameters of the model:
  \<^item> \<open>highlightTree(this.parsed(), style, callback)\<close> of the Lezer library: for a text
    and a style, the arguments \<open>(from, to, classList)\<close> of the calls it makes to its
    callback, in order. Positions are non-negative integers.
  \<^item> \<open>Intl.Segmenter\<close> with granularity \<open>word\<close>: the segments of a string, in order.
  \<^item> The colour library, of which \<open>blendHsl\<close> uses three functions: \<open>new Color(c)\<close>,
    which throws an \<open>Error\<close> on what it cannot read as a colour (\<open>None\<close> here);
    \<open>a.mix(b, amount, 'hsl')\<close>, which reads its argument as \<open>new Color\<close> does; and
    \<open>a.hex()\<close>.
\<close>

type_synonym highlightTree = "jsstring \<Rightarrow> HighlightStyle \<Rightarrow> (nat \<times> nat \<times> jsstring) list"
type_synonym segmenter = "jsstring \<Rightarrow> jsstring list"

record 'c colorlib =
  new_Color :: "jsstring option \<Rightarrow> 'c option"
  mix :: "'c \<Rightarrow> 'c \<Rightarrow> real \<Rightarrow> 'c"
  hex :: "'c \<Rightarrow> jsstring"

section \<open>highlight\<close>

text \<open>\<open>style.module.getRules().split('\n').find(rule => rule.includes(classList))\<close>\<close>

definition find_rule :: "HighlightStyle \<Rightarrow> jsstring \<Rightarrow> jsstring option" where
  "find_rule st classList =
     List.find (\<lambda>rule. includes_str rule classList) (split_str (getRules st) (js ''\<newline>''))"

text \<open>\<open>rule.split('color:')[1]?.split(';')[0].trim()\<close>\<close>

definition rule_color :: "jsstring \<Rightarrow> jsstring option" where
  "rule_color rule =
     (case at_index (split_str rule (js ''color:'')) 1 of
        None \<Rightarrow> None
      | Some r \<Rightarrow> Some (trim (hd (split_str r (js '';'')))))"

text \<open>\<open>!color\<close>: the colour is \<open>undefined\<close> or the empty string.\<close>

definition falsy :: "jsstring option \<Rightarrow> bool" where
  "falsy c = (c = None \<or> c = Some [])"

definition unknown_class :: "jsstring \<Rightarrow> jsstring" where
  "unknown_class classList = js ''Unknown theme class '' @ [0x27] @ classList @ [0x27]"

text \<open>
  The state of one call of \<open>highlight\<close>: the local array \<open>tokens\<close> and the messages
  passed to \<open>useLogger().warn\<close> so far.
\<close>

record hstate =
  tokens :: "tok list"
  warnings :: "jsstring list"

text \<open>The \<open>while\<close> loop of the callback.\<close>

function fill :: "Code \<Rightarrow> nat \<Rightarrow> tok list \<Rightarrow> tok list" where
  "fill this to ts =
     (if length ts < to
      then fill this to
             (ts @ [\<lparr>token = substring (code this) (length ts) (length ts + 1),
                      color = Some (fallbackColor this)\<rparr>])
      else ts)"
  by pat_completeness auto
termination
  by (relation "measure (\<lambda>(this, to, ts). to - length ts)") auto

declare fill.simps [simp del]

text \<open>The \<open>for\<close> loop of the callback, from index \<open>i\<close> on.\<close>

function recolor :: "nat \<Rightarrow> nat \<Rightarrow> jsstring option \<Rightarrow> tok list \<Rightarrow> error + tok list" where
  "recolor i to c ts =
     (if i < to
      then (if i < length ts then recolor (i + 1) to c (ts[i := (ts ! i)\<lparr>color := c\<rparr>])
            else Inl TokenUndefined)
      else Inr ts)"
  by pat_completeness auto
termination
  by (relation "measure (\<lambda>(i, to, c, ts). to - i)") auto

declare recolor.simps [simp del]

definition callback ::
  "Code \<Rightarrow> HighlightStyle \<Rightarrow> hstate \<Rightarrow> nat \<times> nat \<times> jsstring \<Rightarrow> error + hstate" where
  "callback this st h tr =
     (case tr of (from, to, classList) \<Rightarrow>
        (case find_rule st classList of
           None \<Rightarrow> Inl RuleUndefined
         | Some rule \<Rightarrow>
             (let c = rule_color rule;
                  ws = (if falsy c then warnings h @ [unknown_class classList] else warnings h)
              in case recolor from to c (fill this to (tokens h)) of
                   Inl e \<Rightarrow> Inl e
                 | Inr ts \<Rightarrow> Inr \<lparr>tokens = ts, warnings = ws\<rparr>)))"

text \<open>The calls of the callback, one after the other; an exception ends the walk.\<close>

fun walk ::
  "Code \<Rightarrow> HighlightStyle \<Rightarrow> hstate \<Rightarrow> (nat \<times> nat \<times> jsstring) list \<Rightarrow> error + hstate" where
  "walk this st h [] = Inr h"
| "walk this st h (tr # trs) =
     (case callback this st h tr of Inl e \<Rightarrow> Inl e | Inr h' \<Rightarrow> walk this st h' trs)"

text \<open>\<open>highlight\<close> up to the end of \<open>highlightTree\<close>: one token for each character.\<close>

definition highlight_walk :: "highlightTree \<Rightarrow> Code \<Rightarrow> HighlightStyle \<Rightarrow> error + hstate" where
  "highlight_walk hl this st = walk this st \<lparr>tokens = [], warnings = []\<rparr> (hl (code this) st)"

definition highlight :: "highlightTree \<Rightarrow> Code \<Rightarrow> HighlightStyle \<Rightarrow> error + tok list" where
  "highlight hl this st =
     (case highlight_walk hl this st of
        Inl e \<Rightarrow> Inl e
      | Inr h \<Rightarrow> Inr (join_tokens (tokens h)))"

text \<open>Every token has the character of the text at its own index (or none beyond the end).\<close>

definition own_texts :: "Code \<Rightarrow> tok list \<Rightarrow> bool" where
  "own_texts this ts = (\<forall>j<length ts. token (ts ! j) = substring (code this) j (j + 1))"

section \<open>The computed methods\<close>

text \<open>
  What a method under \<open>@computed\<close> returns: an array of tokens, \<open>null\<close>, or
  \<open>undefined\<close>.
\<close>

datatype stream = Undefined | Null | Stream "tok list"

text \<open>
  \<open>@computed\<close> wraps a method: an exception thrown inside is caught and logged, and
  the call returns the value of the last run that ended without an exception,
  \<open>undefined\<close> when there is none. \<open>caches\<close> holds that value for each of the four
  methods, and the exceptions logged so far. The wrapper also skips the method while
  no signal that it read has changed and returns the same value then; since the
  methods read nothing but signals, running them again gives that value too, and the
  model runs them at every call.
\<close>

record caches =
  oldHighlighted_last :: stream
  newHighlighted_last :: stream
  highlighted_last :: stream
  tokens_last :: stream
  logged :: "error list"

definition no_caches :: caches where
  "no_caches =
     \<lparr>oldHighlighted_last = Undefined, newHighlighted_last = Undefined,
      highlighted_last = Undefined, tokens_last = Undefined, logged = []\<rparr>"

text \<open>
  The wrapper, given what the method returned or threw and the caches as the method
  left them.
\<close>

definition computed ::
  "(caches \<Rightarrow> stream) \<Rightarrow> (stream \<Rightarrow> caches \<Rightarrow> caches) \<Rightarrow> (error + stream) \<times> caches
     \<Rightarrow> stream \<times> caches" where
  "computed cached store r =
     (case r of
        (Inr v, c) \<Rightarrow> (v, store v c)
      | (Inl e, c) \<Rightarrow> (cached c, c\<lparr>logged := logged c @ [e]\<rparr>))"

section \<open>oldHighlighted and newHighlighted\<close>

definition oldHighlighted :: "highlightTree \<Rightarrow> Code \<Rightarrow> caches \<Rightarrow> stream \<times> caches" where
  "oldHighlighted hl this c =
     computed oldHighlighted_last (\<lambda>v c. c\<lparr>oldHighlighted_last := v\<rparr>)
       (case oldStyle this of
          None \<Rightarrow> Inr Null
        | Some old \<Rightarrow>
            (case highlight hl this old of Inl e \<Rightarrow> Inl e | Inr ts \<Rightarrow> Inr (Stream ts)),
        c)"

text \<open>
  With an undefined style, \<open>highlightTree\<close> throws when it reads the style at the top
  node of the tree; it does not get there when the text is empty, and makes no call
  then.
\<close>

definition newHighlighted :: "highlightTree \<Rightarrow> Code \<Rightarrow> caches \<Rightarrow> stream \<times> caches" where
  "newHighlighted hl this c =
     computed newHighlighted_last (\<lambda>v c. c\<lparr>newHighlighted_last := v\<rparr>)
       (case style this of
          None \<Rightarrow> (if code this = [] then Inr (Stream []) else Inl StyleUndefined)
        | Some st \<Rightarrow>
            (case highlight hl this st of Inl e \<Rightarrow> Inl e | Inr ts \<Rightarrow> Inr (Stream ts)),
        c)"

section \<open>highlighted\<close>

text \<open>\<open>new Color(c1).mix(c2, amount, 'hsl').hex()\<close>\<close>

definition blendHsl ::
  "'c colorlib \<Rightarrow> jsstring option \<Rightarrow> jsstring option \<Rightarrow> real \<Rightarrow> error + jsstring" where
  "blendHsl lib c1 c2 amount =
     (case new_Color lib c1 of
        None \<Rightarrow> Inl ColorUnreadable
      | Some a \<Rightarrow>
          (case new_Color lib c2 of
             None \<Rightarrow> Inl ColorUnreadable
           | Some b \<Rightarrow> Inr (hex lib (mix lib a b amount))))"

text \<open>
  The second \<open>map\<close>, over the pairs of a new token and the old token at its index:
  \<open>oldToken.color\<close> throws when there is no old token at the index, then \<open>blendHsl\<close>
  may throw; the first exception ends the \<open>map\<close>.
\<close>

fun blend_tokens :: "'c colorlib \<Rightarrow> real \<Rightarrow> tok list \<Rightarrow> tok list \<Rightarrow> error + tok list" where
  "blend_tokens lib amount [] old = Inr []"
| "blend_tokens lib amount (newToken # new) [] = Inl OldTokenUndefined"
| "blend_tokens lib amount (newToken # new) (oldToken # old) =
     (case blendHsl lib (color newToken) (color oldToken) amount of
        Inl e \<Rightarrow> Inl e
      | Inr col \<Rightarrow>
          (case blend_tokens lib amount new old of
             Inl e \<Rightarrow> Inl e
           | Inr ts \<Rightarrow> Inr (\<lparr>token = token newToken, color = Some col\<rparr> # ts)))"

text \<open>
  The method \<open>highlighted\<close> before its wrapper. \<open>this.newHighlighted().map\<close> throws
  when \<open>newHighlighted\<close> returned \<open>undefined\<close>. The first \<open>map\<close> calls
  \<open>this.oldHighlighted()\<close> for each new token, so not at all when there is none, and
  reads an index of the result, which throws when the result is \<open>null\<close> or
  \<open>undefined\<close>.
\<close>

definition highlighted_method ::
  "highlightTree \<Rightarrow> 'c colorlib \<Rightarrow> Code \<Rightarrow> caches \<Rightarrow> (error + stream) \<times> caches" where
  "highlighted_method hl lib this c =
     (case newHighlighted hl this c of
        (new, c1) \<Rightarrow>
          (case styleProgress this of
             None \<Rightarrow> (Inr new, c1)
           | Some progress \<Rightarrow>
               (case new of
                  Undefined \<Rightarrow> (Inl NewHighlightedUndefined, c1)
                | Null \<Rightarrow> (Inl NewHighlightedUndefined, c1)
                | Stream newTokens \<Rightarrow>
                    if newTokens = [] then (Inr (Stream []), c1)
                    else (case oldHighlighted hl this c1 of
                            (Undefined, c2) \<Rightarrow> (Inl OldHighlightedUndefined, c2)
                          | (Null, c2) \<Rightarrow> (Inl OldHighlightedNull, c2)
                          | (Stream oldTokens, c2) \<Rightarrow>
                              (case blend_tokens lib (1 - progress) newTokens oldTokens of
                                 Inl e \<Rightarrow> (Inl e, c2)
                               | Inr ts \<Rightarrow> (Inr (Stream ts), c2))))))"

definition highlighted ::
  "highlightTree \<Rightarrow> 'c colorlib \<Rightarrow> Code \<Rightarrow> caches \<Rightarrow> stream \<times> caches" where
  "highlighted hl lib this c =
     computed highlighted_last (\<lambda>v c. c\<lparr>highlighted_last := v\<rparr>)
       (highlighted_method hl lib this c)"



section \<open>tokens\<close>

text \<open>\<open>i.match(/\s/)\<close>: the segment has a white space character.\<close>

definition has_space :: "jsstring \<Rightarrow> bool" where
  "has_space i = list_ex is_space i"

text \<open>The function given to \<open>reduce\<close>, and the \<open>reduce\<close> from \<open>['']\<close>.\<close>

definition regroup_step :: "jsstring list \<Rightarrow> jsstring \<Rightarrow> error + jsstring list" where
  "regroup_step a i =
     (if \<not> has_space i
      then (case at_index a (length a - 1) of
              None \<Rightarrow> Inl LastUndefined
            | Some l \<Rightarrow> Inr (butlast a @ [l @ i]))
      else Inr (a @ [i]))"

fun regroup_from :: "jsstring list \<Rightarrow> jsstring list \<Rightarrow> error + jsstring list" where
  "regroup_from a [] = Inr a"
| "regroup_from a (i # is) =
     (case regroup_step a i of Inl e \<Rightarrow> Inl e | Inr a' \<Rightarrow> regroup_from a' is)"

definition regroup :: "jsstring list \<Rightarrow> error + jsstring list" where
  "regroup segments = regroup_from [[]] segments"

text \<open>What the outer \<open>map\<close> makes of one token, and of all of them.\<close>

definition split_token :: "segmenter \<Rightarrow> tok \<Rightarrow> error + tok list" where
  "split_token segment t =
     (case regroup (segment (token t)) of
        Inl e \<Rightarrow> Inl e
      | Inr chars \<Rightarrow> Inr (map (\<lambda>char. \<lparr>token = char, color = color t\<rparr>) chars))"

fun split_tokens :: "segmenter \<Rightarrow> tok list \<Rightarrow> error + tok list" where
  "split_tokens segment [] = Inr []"
| "split_tokens segment (t # ts) =
     (case split_token segment t of
        Inl e \<Rightarrow> Inl e
      | Inr cs \<Rightarrow> (case split_tokens segment ts of Inl e \<Rightarrow> Inl e | Inr rest \<Rightarrow> Inr (cs @ rest)))"

text \<open>
  The method \<open>tokens\<close> before its wrapper, and with it. \<open>this.highlighted().map\<close>
  throws when \<open>highlighted\<close> returned \<open>undefined\<close>.
\<close>

definition tokens_method ::
  "highlightTree \<Rightarrow> 'c colorlib \<Rightarrow> segmenter \<Rightarrow> Code \<Rightarrow> caches \<Rightarrow> (error + stream) \<times> caches" where
  "tokens_method hl lib segment this c =
     (case highlighted hl lib this c of
        (Stream ts, c1) \<Rightarrow>
          (case split_tokens segment ts of
             Inl e \<Rightarrow> (Inl e, c1)
           | Inr cs \<Rightarrow> (Inr (Stream cs), c1))
      | (Undefined, c1) \<Rightarrow> (Inl HighlightedUndefined, c1)
      | (Null, c1) \<Rightarrow> (Inl HighlightedUndefined, c1))"

definition Code_tokens ::
  "highlightTree \<Rightarrow> 'c colorlib \<Rightarrow> segmenter \<Rightarrow> Code \<Rightarrow> caches \<Rightarrow> stream \<times> caches" where
  "Code_tokens hl lib segment this c =
     computed tokens_last (\<lambda>v c. c\<lparr>tokens_last := v\<rparr>) (tokens_method hl lib segment this c)"

section \<open>tweenStyle\<close>

text \<open>
  One run of the generator \<open>tweenStyle\<close>, statement by statement. The program
  counter names the line of the source that runs next; \<open>L64\<close> and \<open>L65\<close> carry the
  argument \<open>value\<close>. At \<open>L67\<close> the run is suspended in
  \<open>yield* this.styleProgress(1, duration, timingFunction)\<close>, which stores a number in
  \<open>styleProgress\<close> at each frame and 1 at the end.
\<close>

datatype pc = Idle | L64 HighlightStyle | L65 HighlightStyle | L66 | L67 | L68 | L69

record run =
  node :: Code
  cache :: caches
  pc :: pc

text \<open>
  A step is a statement of \<open>tweenStyle\<close>, or a step of the host, which runs only
  while no statement of \<open>tweenStyle\<close> does: it starts a run when none is in progress
  (\<open>call\<close>), drops a suspended run (\<open>cancel\<close>), writes the public signals
  (\<open>host\<close>), where it can give \<open>style\<close> a style but not make it \<open>undefined\<close>, or
  measures or draws the node (\<open>render\<close>), which calls \<open>tokens\<close> with whatever parser
  and segmenter. \<open>oldStyle\<close> and \<open>styleProgress\<close> are private and written by
  \<open>tweenStyle\<close> only. At most one run is in progress at a time.
\<close>

inductive step :: "'c colorlib \<Rightarrow> run \<Rightarrow> run \<Rightarrow> bool" for lib where
  call: "pc r = Idle \<Longrightarrow> step lib r (r\<lparr>pc := L64 v\<rparr>)"
| line64: "pc r = L64 v \<Longrightarrow>
     step lib r (r\<lparr>node := (node r)\<lparr>oldStyle := style (node r)\<rparr>, pc := L65 v\<rparr>)"
| line65: "pc r = L65 v \<Longrightarrow>
     step lib r (r\<lparr>node := (node r)\<lparr>style := Some v\<rparr>, pc := L66\<rparr>)"
| line66: "pc r = L66 \<Longrightarrow>
     step lib r (r\<lparr>node := (node r)\<lparr>styleProgress := Some 0\<rparr>, pc := L67\<rparr>)"
| line67_frame: "pc r = L67 \<Longrightarrow>
     step lib r (r\<lparr>node := (node r)\<lparr>styleProgress := Some p\<rparr>\<rparr>)"
| line67_end: "pc r = L67 \<Longrightarrow>
     step lib r (r\<lparr>node := (node r)\<lparr>styleProgress := Some 1\<rparr>, pc := L68\<rparr>)"
| line68: "pc r = L68 \<Longrightarrow>
     step lib r (r\<lparr>node := (node r)\<lparr>styleProgress := None\<rparr>, pc := L69\<rparr>)"
| line69: "pc r = L69 \<Longrightarrow>
     step lib r (r\<lparr>node := (node r)\<lparr>oldStyle := None\<rparr>, pc := Idle\<rparr>)"
| cancel: "pc r = L67 \<Longrightarrow> step lib r (r\<lparr>pc := Idle\<rparr>)"
| host: "pc r = Idle \<or> pc r = L67 \<Longrightarrow> oldStyle n = oldStyle (node r) \<Longrightarrow>
     styleProgress n = styleProgress (node r) \<Longrightarrow>
     (style n = None \<longrightarrow> style (node r) = None) \<Longrightarrow> step lib r (r\<lparr>node := n\<rparr>)"
| render: "pc r = Idle \<or> pc r = L67 \<Longrightarrow>
     step lib r (r\<lparr>cache := snd (Code_tokens hl lib segment (node r) (cache r))\<rparr>)"

text \<open>
  The node is constructed with \<open>oldStyle\<close> and \<open>styleProgress\<close> both \<open>null\<close>
  (\<open>createSignal(null)\<close>), nothing computed yet and no run in progress.
\<close>

definition constructed :: "run \<Rightarrow> bool" where
  "constructed r =
     (oldStyle (node r) = None \<and> styleProgress (node r) = None \<and>
      cache r = no_caches \<and> pc r = Idle)"

inductive reachable_from :: "'c colorlib \<Rightarrow> run \<Rightarrow> run \<Rightarrow> bool" for lib r0 where
  at_start: "reachable_from lib r0 r0"
| after_step: "reachable_from lib r0 r \<Longrightarrow> step lib r r' \<Longrightarrow> reachable_from lib r0 r'"

text \<open>
  Nothing in \<open>tweenStyle\<close> keeps a second run from starting while a first one is
  suspended in its tween. Two runs on the same node: a run takes a step only while
  the other one is not running or is suspended at its \<open>yield\<close>, since a generator
  runs without interruption from one \<open>yield\<close> to the next.
\<close>

definition at_yield :: "pc \<Rightarrow> bool" where
  "at_yield p = (p = Idle \<or> p = L67)"

inductive step_two ::
  "'c colorlib \<Rightarrow> Code \<times> caches \<times> pc \<times> pc \<Rightarrow> Code \<times> caches \<times> pc \<times> pc \<Rightarrow> bool" for lib where
  first: "at_yield q \<Longrightarrow>
     step lib \<lparr>node = n, cache = c, pc = p\<rparr> \<lparr>node = n', cache = c', pc = p'\<rparr> \<Longrightarrow>
     step_two lib (n, c, p, q) (n', c', p', q)"
| second: "at_yield p \<Longrightarrow>
     step lib \<lparr>node = n, cache = c, pc = q\<rparr> \<lparr>node = n', cache = c', pc = q'\<rparr> \<Longrightarrow>
     step_two lib (n, c, p, q) (n', c', p, q')"

inductive reachable_two_from ::
  "'c colorlib \<Rightarrow> Code \<times> caches \<times> pc \<times> pc \<Rightarrow> Code \<times> caches \<times> pc \<times> pc \<Rightarrow> bool"
  for lib s0 where
  at_start_two: "reachable_two_from lib s0 s0"
| after_step_two: "reachable_two_from lib s0 s \<Longrightarrow> step_two lib s s' \<Longrightarrow>
     reachable_two_from lib s0 s'"

text \<open>
  What one run of \<open>tweenStyle\<close> at a time keeps true on a node that has a style:
  \<open>oldStyle\<close> is set from line 65 to line 68, and \<open>styleProgress\<close> is \<open>null\<close> again
  at line 69; \<open>oldHighlighted\<close> never returned \<open>null\<close> to \<open>highlighted\<close>.
\<close>

definition tween_inv :: "run \<Rightarrow> bool" where
  "tween_inv r =
     (style (node r) \<noteq> None \<and>
      oldHighlighted_last (cache r) \<noteq> Null \<and>
      OldHighlightedNull \<notin> set (logged (cache r)) \<and>
      (case pc r of
         Idle \<Rightarrow> styleProgress (node r) = None \<or> oldStyle (node r) \<noteq> None
       | L64 v \<Rightarrow> styleProgress (node r) = None \<or> oldStyle (node r) \<noteq> None
       | L69 \<Rightarrow> styleProgress (node r) = None
       | _ \<Rightarrow> oldStyle (node r) \<noteq> None))"

text \<open>\<open>oldHighlighted\<close> has not returned \<open>null\<close> to \<open>highlighted\<close> so far.\<close>

definition never_null :: "caches \<Rightarrow> bool" where
  "never_null c = (oldHighlighted_last c \<noteq> Null \<and> OldHighlightedNull \<notin> set (logged c))"

section \<open>Example inputs\<close>

text \<open>Styles with a colour for each rule, and a style whose rule has no colour.\<close>

definition red_blue_style :: HighlightStyle where
  "red_blue_style = HighlightStyle (js ''.a {color: #ff0000;}\<newline>.b {color: #0000ff;}'')"

definition green_style :: HighlightStyle where
  "green_style = HighlightStyle (js ''.a {color: #00ff00;}'')"


definition bold_style :: HighlightStyle where
  "bold_style = HighlightStyle (js ''.k {font-weight: bold;}'')"

definition example_node :: "jsstring \<Rightarrow> HighlightStyle \<Rightarrow> Code" where
  "example_node text st =
     \<lparr>code = text, fallbackColor = js ''#c9d1d9'', style = Some st,
      oldStyle = None, styleProgress = None\<rparr>"

text \<open>A segmenter that makes a segment of every code unit.\<close>

definition each_char :: segmenter where
  "each_char s = map (\<lambda>c. [c]) s"

text \<open>
  A colour library for the examples. Its colours are the strings \<open>#rrggbb\<close> with
  lower-case digits; it reads these strings and the name \<open>red\<close>, and nothing else;
  \<open>mix\<close> returns the nearer of the two colours, as the library does at the amounts 0
  and 1.
\<close>

definition hex_digit :: "jschar \<Rightarrow> bool" where
  "hex_digit c = ((0x30 \<le> c \<and> c \<le> 0x39) \<or> (0x61 \<le> c \<and> c \<le> 0x66))"

definition example_lib :: "jsstring colorlib" where
  "example_lib =
     \<lparr>new_Color = (\<lambda>c. case c of
          None \<Rightarrow> None
        | Some s \<Rightarrow>
            if s = js ''red'' then Some (js ''#ff0000'')
            else if length s = 7 \<and> take 1 s = js ''#'' \<and> list_all hex_digit (drop 1 s)
              then Some s
            else None),
      mix = (\<lambda>a b amount. if amount < 1 / 2 then a else b),
      hex = (\<lambda>a. a)\<rparr>"

section \<open>Whitespace normalization\<close>

lemma hd_split_from_char:
  "hd (split_from [nl] cur s) = rev cur @ takeWhile (\<lambda>c. c \<noteq> nl) s"
proof (induction "[nl]" cur s rule: split_from.induct)
  case (1 cur s)
  show ?case
  proof (cases s)
    case Nil
    then show ?thesis by (subst split_from.simps) simp
  next
    case (Cons c cs)
    show ?thesis
    proof (cases "c = nl")
      case True
      have "split_from [nl] cur (nl # cs) = rev cur # split_from [nl] [] cs"
        by (subst split_from.simps) (simp add: startsWith_def)
      with True Cons show ?thesis by simp
    next
      case False
      then have "split_from [nl] cur (c # cs) = split_from [nl] (c # cur) cs"
        by (subst split_from.simps) (simp add: startsWith_def)
      with False Cons 1(2) show ?thesis by (simp add: startsWith_def)
    qed
  qed
qed

text \<open>The first line is the text before the first line feed.\<close>

lemma firstLine_takeWhile: "firstLine str = takeWhile (\<lambda>c. c \<noteq> 0x0A) str"
  by (simp add: firstLine_def split_str_def js_def hd_split_from_char)

lemma correctWhitespace_returns_str:
  "\<not> blank (firstLine str) \<Longrightarrow> correctWhitespace str = Inr str"
  by (simp add: correctWhitespace_def)

text \<open>
  C9. A text whose first line (the characters before the first line feed) is not
  entirely white space is returned unchanged by \<open>correctWhitespace\<close>; in particular,
  when the output of \<open>correctWhitespace\<close> has such a first line, applying
  \<open>correctWhitespace\<close> to that output returns it unchanged.
\<close>

theorem correctWhitespace_nonblank_first_line:
  "(\<not> list_all is_space (takeWhile (\<lambda>c. c \<noteq> 0x0A) str) \<longrightarrow> correctWhitespace str = Inr str) \<and>
   (correctWhitespace str = Inr out \<and> \<not> list_all is_space (takeWhile (\<lambda>c. c \<noteq> 0x0A) out)
      \<longrightarrow> correctWhitespace out = Inr out)"
proof -
  have unchanged: "correctWhitespace s = Inr s"
    if "\<not> list_all is_space (takeWhile (\<lambda>c. c \<noteq> 0x0A) s)" for s
    using that correctWhitespace_returns_str [of s] by (simp add: firstLine_takeWhile blank_def)
  show ?thesis using unchanged by blast
qed

theorem correctWhitespace_nonblank_first_line_witness:
  "correctWhitespace (js ''ab\<newline>  cd'') = Inr (js ''ab\<newline>  cd'') \<and>
   correctWhitespace (js ''\<newline>  foo\<newline>  bar\<newline>'') = Inr (js ''foo\<newline>bar\<newline>'') \<and>
   correctWhitespace (js ''foo\<newline>bar\<newline>'') = Inr (js ''foo\<newline>bar\<newline>'')"
proof -
  have h1: "\<not> list_all is_space (takeWhile (\<lambda>c. c \<noteq> 0x0A) (js ''ab\<newline>  cd''))"
    by code_simp
  have h2: "correctWhitespace (js ''\<newline>  foo\<newline>  bar\<newline>'') = Inr (js ''foo\<newline>bar\<newline>'')"
    by code_simp
  have h3: "\<not> list_all is_space (takeWhile (\<lambda>c. c \<noteq> 0x0A) (js ''foo\<newline>bar\<newline>''))"
    by code_simp
  from correctWhitespace_nonblank_first_line [of "js ''ab\<newline>  cd''"] h1
  have a: "correctWhitespace (js ''ab\<newline>  cd'') = Inr (js ''ab\<newline>  cd'')"
    by blast
  from correctWhitespace_nonblank_first_line
         [of "js ''\<newline>  foo\<newline>  bar\<newline>''" "js ''foo\<newline>bar\<newline>''"] h2 h3
  have b: "correctWhitespace (js ''foo\<newline>bar\<newline>'') = Inr (js ''foo\<newline>bar\<newline>'')"
    by blast
  from a h2 b show ?thesis by blast
qed

section \<open>Joining tokens of the same colour\<close>

lemma concat_join_step:
  "concat (map token (join_step acc t)) = concat (map token acc) @ token t"
proof (cases "acc = []")
  case True
  then show ?thesis by (simp add: join_step_def)
next
  case False
  then have "acc = butlast acc @ [last acc]" by simp
  then have "map token acc = map token (butlast acc) @ [token (last acc)]"
    by (metis list.simps(8,9) map_append)
  then have "concat (map token acc) = concat (map token (butlast acc)) @ token (last acc)"
    by simp
  with False show ?thesis by (simp add: join_step_def)
qed

lemma concat_foldl_join_step:
  "concat (map token (foldl join_step acc ts)) = concat (map token acc) @ concat (map token ts)"
  by (induction ts arbitrary: acc) (simp_all add: concat_join_step)

text \<open>
  C8. For every list of per-character tokens, the texts of the spans made by the
  joining fold, concatenated, are the texts of the tokens before joining,
  concatenated.
\<close>

theorem join_tokens_text: "concat (map token (join_tokens ts)) = concat (map token ts)"
  by (simp add: join_tokens_def concat_foldl_join_step)

section \<open>The callback of highlight\<close>

lemma substring_char: "j < length s \<Longrightarrow> substring s j (j + 1) = [s ! j]"
  by (simp add: substring_def take_Suc_conv_app_nth [of 0] hd_drop_conv_nth take_Suc)

text \<open>The \<open>while\<close> loop extends the array to length \<open>to\<close> and keeps what is there.\<close>

lemma length_fill: "length (fill this to ts) = max (length ts) to"
proof (induction this to ts rule: fill.induct)
  case (1 this to ts)
  show ?case
  proof (cases "length ts < to")
    case True
    with 1 show ?thesis by (subst fill.simps) simp
  next
    case False
    then show ?thesis by (subst fill.simps) simp
  qed
qed

lemma fill_nth:
  "j < max (length ts) to \<Longrightarrow>
   fill this to ts ! j =
     (if j < length ts then ts ! j
      else \<lparr>token = substring (code this) j (j + 1), color = Some (fallbackColor this)\<rparr>)"
proof (induction this to ts rule: fill.induct)
  case (1 this to ts)
  show ?case
  proof (cases "length ts < to")
    case True
    let ?t = "\<lparr>token = substring (code this) (length ts) (length ts + 1),
               color = Some (fallbackColor this)\<rparr>"
    have eq: "fill this to ts = fill this to (ts @ [?t])"
      using True by (subst fill.simps) simp
    from True 1(2) have j: "j < max (length (ts @ [?t])) to" by simp
    have "j < length ts \<or> j = length ts \<or> length ts < j" by arith
    with 1(1) [OF True j] show ?thesis
      unfolding eq by (auto simp: nth_append)
  next
    case False
    with 1(2) show ?thesis by (subst fill.simps) simp
  qed
qed

text \<open>
  The \<open>for\<close> loop never reads beyond the array when the array has \<open>to\<close> entries,
  as it has after the \<open>while\<close> loop.
\<close>

lemma recolor_spec:
  "to \<le> length ts \<Longrightarrow>
   \<exists>ts'. recolor i to c ts = Inr ts' \<and> length ts' = length ts \<and>
     (\<forall>j<length ts. ts' ! j = (if i \<le> j \<and> j < to then (ts ! j)\<lparr>color := c\<rparr> else ts ! j))"
proof (induction i to c ts rule: recolor.induct)
  case (1 i to c ts)
  show ?case
  proof (cases "i < to")
    case True
    with 1(2) have il: "i < length ts" by simp
    let ?ts = "ts[i := (ts ! i)\<lparr>color := c\<rparr>]"
    have eq: "recolor i to c ts = recolor (i + 1) to c ?ts"
      using True il by (subst recolor.simps) simp
    from 1(2) have "to \<le> length ?ts" by simp
    from 1(1) [OF True il this] obtain ts' where
      r: "recolor (i + 1) to c ?ts = Inr ts'" and l: "length ts' = length ?ts" and
      n: "\<forall>j<length ?ts. ts' ! j = (if i + 1 \<le> j \<and> j < to then (?ts ! j)\<lparr>color := c\<rparr> else ?ts ! j)"
      by blast
    have "\<forall>j<length ts. ts' ! j = (if i \<le> j \<and> j < to then (ts ! j)\<lparr>color := c\<rparr> else ts ! j)"
    proof (intro allI impI)
      fix j assume jl: "j < length ts"
      show "ts' ! j = (if i \<le> j \<and> j < to then (ts ! j)\<lparr>color := c\<rparr> else ts ! j)"
      proof (cases "j = i")
        case True
        with n jl \<open>i < to\<close> show ?thesis by simp
      next
        case False
        with n jl show ?thesis by (auto simp: nth_list_update)
      qed
    qed
    with r l eq show ?thesis by simp
  next
    case False
    then have "recolor i to c ts = Inr ts" by (subst recolor.simps) simp
    moreover from False have "\<not> (i \<le> j \<and> j < to)" for j by arith
    ultimately show ?thesis by auto
  qed
qed

text \<open>A call of the callback whose class list is found in some rule.\<close>

lemma callback_spec:
  assumes rule: "find_rule st classList = Some rule"
  shows "\<exists>h'. callback this st h (from, to, classList) = Inr h' \<and>
           warnings h' = (if falsy (rule_color rule) then warnings h @ [unknown_class classList]
                          else warnings h) \<and>
           length (tokens h') = max (length (tokens h)) to \<and>
           (\<forall>j<length (tokens h').
              tokens h' ! j =
                (if from \<le> j \<and> j < to
                 then (fill this to (tokens h) ! j)\<lparr>color := rule_color rule\<rparr>
                 else fill this to (tokens h) ! j))"
proof -
  let ?f = "fill this to (tokens h)"
  have "to \<le> length ?f" by (simp add: length_fill)
  from recolor_spec [OF this, of "from" "rule_color rule"] obtain ts' where
    r: "recolor from to (rule_color rule) ?f = Inr ts'" and l: "length ts' = length ?f" and
    n: "\<forall>j<length ?f. ts' ! j =
          (if from \<le> j \<and> j < to then (?f ! j)\<lparr>color := rule_color rule\<rparr> else ?f ! j)"
    by blast
  from rule r have "callback this st h (from, to, classList) =
      Inr \<lparr>tokens = ts',
           warnings = (if falsy (rule_color rule) then warnings h @ [unknown_class classList]
                       else warnings h)\<rparr>"
    by (simp add: callback_def Let_def)
  with l n show ?thesis by (simp add: length_fill)
qed

text \<open>
  C1, as amended. When the rule found for the class list of a range has no colour
  (no \<open>color:\<close> property, or an empty one), the callback does not throw and emits
  exactly one warning; the array is extended to \<open>to\<close> entries, the new ones with
  their own character and the fallback colour; then every index in \<open>[from, to)\<close>
  gets the unresolved colour (\<open>undefined\<close> or the empty string) in place of the
  colour it had, the fallback colour included, and every other entry and every text
  is left as it was.
\<close>

theorem unresolved_color_overwrites:
  assumes "find_rule st classList = Some rule" and "falsy (rule_color rule)"
  shows "\<exists>h'. callback this st h (from, to, classList) = Inr h' \<and>
           warnings h' = warnings h @ [unknown_class classList] \<and>
           length (tokens h') = max (length (tokens h)) to \<and>
           (\<forall>j<length (tokens h').
              tokens h' ! j =
                (let before = (if j < length (tokens h) then tokens h ! j
                               else \<lparr>token = substring (code this) j (j + 1),
                                     color = Some (fallbackColor this)\<rparr>)
                 in if from \<le> j \<and> j < to then before\<lparr>color := rule_color rule\<rparr> else before))"
proof -
  from callback_spec [OF assms(1), of this h "from" to] obtain h' where
    c: "callback this st h (from, to, classList) = Inr h'" and
    w: "warnings h' = (if falsy (rule_color rule) then warnings h @ [unknown_class classList]
                       else warnings h)" and
    l: "length (tokens h') = max (length (tokens h)) to" and
    n: "\<forall>j<length (tokens h').
          tokens h' ! j =
            (if from \<le> j \<and> j < to
             then (fill this to (tokens h) ! j)\<lparr>color := rule_color rule\<rparr>
             else fill this to (tokens h) ! j)"
    by blast
  have "tokens h' ! j =
          (let before = (if j < length (tokens h) then tokens h ! j
                         else \<lparr>token = substring (code this) j (j + 1),
                               color = Some (fallbackColor this)\<rparr>)
           in if from \<le> j \<and> j < to then before\<lparr>color := rule_color rule\<rparr> else before)"
    if "j < length (tokens h')" for j
    using that n l fill_nth [of j "tokens h" to this] by (simp add: Let_def)
  with c w l assms(2) show ?thesis by simp
qed

theorem unresolved_color_overwrites_witness:
  "find_rule bold_style (js ''.k'') = Some (js ''.k {font-weight: bold;}'') \<and>
   falsy (rule_color (js ''.k {font-weight: bold;}'')) \<and>
   (\<exists>h'. callback (example_node (js ''x'') bold_style) bold_style
            \<lparr>tokens = [], warnings = []\<rparr> (0, 1, js ''.k'') = Inr h' \<and>
         warnings h' = [unknown_class (js ''.k'')] \<and>
         length (tokens h') = 1 \<and>
         tokens h' ! 0 = \<lparr>token = js ''x'', color = None\<rparr>)"
proof -
  let ?node = "example_node (js ''x'') bold_style"
  let ?h = "\<lparr>tokens = [], warnings = []\<rparr>"
  have r: "find_rule bold_style (js ''.k'') = Some (js ''.k {font-weight: bold;}'')"
    by code_simp
  have f: "falsy (rule_color (js ''.k {font-weight: bold;}''))"
    by code_simp
  have c: "rule_color (js ''.k {font-weight: bold;}'') = None"
    by code_simp
  have x: "substring (code ?node) 0 (0 + 1) = js ''x''"
    by code_simp
  from unresolved_color_overwrites [OF r f, of ?node ?h 0 1] obtain h' where
    cb: "callback ?node bold_style ?h (0, 1, js ''.k'') = Inr h'" and
    w: "warnings h' = warnings ?h @ [unknown_class (js ''.k'')]" and
    l: "length (tokens h') = max (length (tokens ?h)) 1" and
    n: "\<And>j. j < length (tokens h') \<Longrightarrow>
          tokens h' ! j =
            (let before = (if j < length (tokens ?h) then tokens ?h ! j
                           else \<lparr>token = substring (code ?node) j (j + 1),
                                 color = Some (fallbackColor ?node)\<rparr>)
             in if 0 \<le> j \<and> j < 1
                then before\<lparr>color := rule_color (js ''.k {font-weight: bold;}'')\<rparr>
                else before)"
    by blast
  from l have l1: "length (tokens h') = 1" by simp
  from n [of 0] l1 c x have "tokens h' ! 0 = \<lparr>token = js ''x'', color = None\<rparr>"
    by (simp add: Let_def)
  with r f cb w l1 show ?thesis by simp
qed

text \<open>
  C1, as stated, fails: the rule found for \<open>.k\<close> has no colour, and the one
  character of the range ends with the colour \<open>undefined\<close>, not with the fallback
  colour \<open>#c9d1d9\<close> it was given by the \<open>while\<close> loop.
\<close>

theorem unresolved_color_counterexample:
  "highlight_walk (\<lambda>text st. [(0, 1, js ''.k'')]) (example_node (js ''x'') bold_style) bold_style =
     Inr \<lparr>tokens = [\<lparr>token = js ''x'', color = None\<rparr>],
          warnings = [unknown_class (js ''.k'')]\<rparr> \<and>
   fallbackColor (example_node (js ''x'') bold_style) = js ''#c9d1d9''"
  by code_simp

section \<open>The walk of highlight\<close>

text \<open>
  What the walk does guarantee: the texts of its tokens, concatenated, are the text up
  to the number of tokens, that is up to the largest \<open>to\<close> of a range.
\<close>

lemma callback_own_texts:
  assumes "callback this st h tr = Inr h'" and "own_texts this (tokens h)"
  shows "own_texts this (tokens h')"
proof -
  obtain "from" to classList where tr: "tr = (from, to, classList)" by (cases tr)
  from assms(1) tr obtain rule where rule: "find_rule st classList = Some rule"
    by (cases "find_rule st classList") (simp_all add: callback_def)
  from callback_spec [OF rule, of this h "from" to] assms(1) tr have
    l: "length (tokens h') = max (length (tokens h)) to" and
    n: "\<forall>j<length (tokens h').
          tokens h' ! j =
            (if from \<le> j \<and> j < to
             then (fill this to (tokens h) ! j)\<lparr>color := rule_color rule\<rparr>
             else fill this to (tokens h) ! j)"
    by auto
  have "token (tokens h' ! j) = substring (code this) j (j + 1)" if "j < length (tokens h')" for j
  proof -
    from that n have "token (tokens h' ! j) = token (fill this to (tokens h) ! j)" by simp
    also from that l assms(2) have "\<dots> = substring (code this) j (j + 1)"
      using fill_nth [of j "tokens h" to this] by (simp add: own_texts_def)
    finally show ?thesis .
  qed
  then show ?thesis by (simp add: own_texts_def)
qed

lemma walk_own_texts:
  "walk this st h trs = Inr h' \<Longrightarrow> own_texts this (tokens h) \<Longrightarrow> own_texts this (tokens h')"
proof (induction trs arbitrary: h)
  case Nil
  then show ?case by simp
next
  case (Cons tr trs)
  from Cons.prems(1) obtain h1 where c: "callback this st h tr = Inr h1"
    and w: "walk this st h1 trs = Inr h'"
    by (cases "callback this st h tr") simp_all
  from callback_own_texts [OF c Cons.prems(2)] Cons.IH [OF w] show ?case by blast
qed

lemma concat_own_texts: "own_texts this ts \<Longrightarrow> concat (map token ts) = take (length ts) (code this)"
proof (induction ts rule: rev_induct)
  case Nil
  then show ?case by simp
next
  case (snoc t ts)
  have own: "own_texts this ts"
    unfolding own_texts_def
  proof (intro allI impI)
    fix j assume j: "j < length ts"
    with snoc.prems have "token ((ts @ [t]) ! j) = substring (code this) j (j + 1)"
      by (simp add: own_texts_def)
    with j show "token (ts ! j) = substring (code this) j (j + 1)"
      by (simp add: nth_append)
  qed
  have "length ts < length (ts @ [t])" by simp
  with snoc.prems have "token ((ts @ [t]) ! length ts) = substring (code this) (length ts) (length ts + 1)"
    unfolding own_texts_def by blast
  then have t: "token t = take 1 (drop (length ts) (code this))"
    by (simp add: substring_def)
  from snoc.IH [OF own] t take_add [of "length ts" 1 "code this"] show ?case by simp
qed

lemma highlight_walk_prefix:
  "highlight_walk hl this st = Inr h \<Longrightarrow>
   concat (map token (tokens h)) = take (length (tokens h)) (code this)"
  using walk_own_texts [of this st "\<lparr>tokens = [], warnings = []\<rparr>" "hl (code this) st" h]
  by (simp add: highlight_walk_def own_texts_def concat_own_texts)

text \<open>
  C7. When the highlighter emits \<open>(0, 10, "a")\<close> and then \<open>(3, 6, "b")\<close> over a text of
  at least 10 characters, and a rule is found for each of the two class lists, the
  walk ends with 10 tokens, each with its own character; the indices 3 to 5 have the
  colour of the rule found for \<open>b\<close>, the indices 0 to 2 and 6 to 9 the colour of the
  rule found for \<open>a\<close>.
\<close>

theorem last_triple_wins:
  assumes len: "10 \<le> length (code this)"
    and triples: "hl (code this) st = [(0, 10, js ''a''), (3, 6, js ''b'')]"
    and a: "find_rule st (js ''a'') = Some rule_a"
    and b: "find_rule st (js ''b'') = Some rule_b"
  shows "\<exists>h. highlight_walk hl this st = Inr h \<and> length (tokens h) = 10 \<and>
           (\<forall>j<10. token (tokens h ! j) = [code this ! j] \<and>
                    color (tokens h ! j) =
                      (if 3 \<le> j \<and> j < 6 then rule_color rule_b else rule_color rule_a))"
proof -
  let ?h0 = "\<lparr>tokens = [], warnings = []\<rparr>"
  from callback_spec [OF a, of this ?h0 0 10] obtain h1 where
    c1: "callback this st ?h0 (0, 10, js ''a'') = Inr h1" and
    l1: "length (tokens h1) = 10" and
    n1: "\<forall>j<length (tokens h1). tokens h1 ! j =
           (if 0 \<le> j \<and> j < 10 then (fill this 10 (tokens ?h0) ! j)\<lparr>color := rule_color rule_a\<rparr>
            else fill this 10 (tokens ?h0) ! j)"
    by auto
  have t1: "tokens h1 ! j = \<lparr>token = [code this ! j], color = rule_color rule_a\<rparr>"
    if "j < 10" for j
  proof -
    from that len have "j < length (code this)" by simp
    then have "substring (code this) j (j + 1) = [code this ! j]" by (rule substring_char)
    with that n1 l1 fill_nth [of j "[]" 10 this] show ?thesis by simp
  qed
  from callback_spec [OF b, of this h1 3 6] l1 obtain h2 where
    c2: "callback this st h1 (3, 6, js ''b'') = Inr h2" and
    l2: "length (tokens h2) = 10" and
    n2: "\<forall>j<length (tokens h2). tokens h2 ! j =
           (if 3 \<le> j \<and> j < 6 then (fill this 6 (tokens h1) ! j)\<lparr>color := rule_color rule_b\<rparr>
            else fill this 6 (tokens h1) ! j)"
    by auto
  have t2: "token (tokens h2 ! j) = [code this ! j] \<and>
            color (tokens h2 ! j) = (if 3 \<le> j \<and> j < 6 then rule_color rule_b else rule_color rule_a)"
    if "j < 10" for j
    using that n2 l2 l1 t1 [OF that] fill_nth [of j "tokens h1" 6 this] by simp
  have "highlight_walk hl this st = Inr h2"
    using c1 c2 triples by (simp add: highlight_walk_def)
  with l2 t2 show ?thesis by simp
qed

theorem last_triple_wins_witness:
  "\<exists>h. highlight_walk (\<lambda>text st. [(0, 10, js ''a''), (3, 6, js ''b'')])
          (example_node (js ''0123456789xy'') red_blue_style) red_blue_style = Inr h \<and>
       length (tokens h) = 10 \<and>
       color (tokens h ! 2) = Some (js ''#ff0000'') \<and>
       color (tokens h ! 3) = Some (js ''#0000ff'') \<and>
       color (tokens h ! 5) = Some (js ''#0000ff'') \<and>
       color (tokens h ! 6) = Some (js ''#ff0000'')"
proof -
  let ?hl = "\<lambda>(text :: jsstring) (st :: HighlightStyle). [(0 :: nat, 10 :: nat, js ''a''), (3, 6, js ''b'')]"
  let ?node = "example_node (js ''0123456789xy'') red_blue_style"
  have len: "10 \<le> length (code ?node)" by code_simp
  have triples: "?hl (code ?node) red_blue_style = [(0, 10, js ''a''), (3, 6, js ''b'')]" by simp
  have a: "find_rule red_blue_style (js ''a'') = Some (js ''.a {color: #ff0000;}'')" by code_simp
  have b: "find_rule red_blue_style (js ''b'') = Some (js ''.b {color: #0000ff;}'')" by code_simp
  have ca: "rule_color (js ''.a {color: #ff0000;}'') = Some (js ''#ff0000'')" by code_simp
  have cb: "rule_color (js ''.b {color: #0000ff;}'') = Some (js ''#0000ff'')" by code_simp
  from last_triple_wins [of ?node ?hl red_blue_style, OF len triples a b] obtain h where
    w: "highlight_walk ?hl ?node red_blue_style = Inr h" and l: "length (tokens h) = 10" and
    n: "\<And>j. j < 10 \<Longrightarrow> color (tokens h ! j) =
          (if 3 \<le> j \<and> j < 6 then rule_color (js ''.b {color: #0000ff;}'')
           else rule_color (js ''.a {color: #ff0000;}''))"
    by blast
  from n [of 2] n [of 3] n [of 5] n [of 6] ca cb w l show ?thesis by simp
qed

text \<open>
  C2. The text \<open>abc\<close> with the single range \<open>(0, 1, ".a")\<close>: the walk ends with one
  token, for the first character; the characters after the last range have none.
\<close>

theorem walk_leaves_trailing_characters:
  "highlight_walk (\<lambda>text st. [(0, 1, js ''.a'')]) (example_node (js ''abc'') red_blue_style)
     red_blue_style =
   Inr \<lparr>tokens = [\<lparr>token = js ''a'', color = Some (js ''#ff0000'')\<rparr>], warnings = []\<rparr>"
  by code_simp

text \<open>
  C4. When the highlighter never calls the callback, \<open>highlight\<close> returns no token
  at all, whatever the text and the fallback colour.
\<close>

theorem highlight_no_callback: "highlight (\<lambda>text st. []) this st = Inr []"
  by (simp add: highlight_def highlight_walk_def join_tokens_def)

text \<open>
  C5. \<open>correctWhitespace\<close> throws on the empty text, which has no second line, and
  \<open>highlight\<close> throws on a class list that no rule of the style mentions.
\<close>

theorem pipeline_throws:
  "correctWhitespace (js '''') = Inl SecondLineUndefined \<and>
   highlight (\<lambda>text st. [(0, 1, js ''.c'')]) (example_node (js ''x'') red_blue_style)
     red_blue_style = Inl RuleUndefined"
  by code_simp

section \<open>Splitting into segments\<close>

text \<open>The accumulator of the \<open>reduce\<close> is never empty, so \<open>regroup\<close> does not throw.\<close>

lemma regroup_from_total: "a \<noteq> [] \<Longrightarrow> \<exists>b. regroup_from a segments = Inr b \<and> b \<noteq> []"
proof (induction segments arbitrary: a)
  case Nil
  then show ?case by simp
next
  case (Cons i segments)
  from Cons.prems have "\<exists>a'. regroup_step a i = Inr a' \<and> a' \<noteq> []"
    by (simp add: regroup_step_def at_index_def)
  then obtain a' where "regroup_step a i = Inr a'" and "a' \<noteq> []" by blast
  with Cons.IH [of a'] show ?case by simp
qed

lemma regroup_total: "\<exists>chars. regroup segments = Inr chars"
  using regroup_from_total [of "[[]]" segments] by (auto simp: regroup_def)

lemma regroup_words: "regroup [js ''ab'', js '' '', js ''cd''] = Inr [js ''ab'', js '' cd'']"
  by code_simp

lemma regroup_chars:
  "regroup [js ''a'', js ''b'', js '' '', js ''c'', js ''d''] = Inr [js ''ab'', js '' cd'']"
  by code_simp

text \<open>
  C3. For a single span \<open>ab cd\<close> returned by \<open>highlighted\<close>, segmented into words
  (\<open>ab\<close>, the space, \<open>cd\<close>) or into characters, \<open>tokens\<close> returns \<open>ab\<close> and
  \<open>\<^verbatim>\<open> cd\<close>\<close>: a segment without white space is appended to the last element of
  the accumulator, also when that element is a space.
\<close>

theorem tokens_glue_after_space:
  assumes "highlighted hl lib this c = (Stream [\<lparr>token = js ''ab cd'', color = col\<rparr>], c')"
    and "segment (js ''ab cd'') = [js ''ab'', js '' '', js ''cd''] \<or>
         segment (js ''ab cd'') = [js ''a'', js ''b'', js '' '', js ''c'', js ''d'']"
  shows "Code_tokens hl lib segment this c =
           (Stream [\<lparr>token = js ''ab'', color = col\<rparr>, \<lparr>token = js '' cd'', color = col\<rparr>],
            c'\<lparr>tokens_last :=
                 Stream [\<lparr>token = js ''ab'', color = col\<rparr>, \<lparr>token = js '' cd'', color = col\<rparr>]\<rparr>)"
proof -
  from assms(2) have "regroup (segment (js ''ab cd'')) = Inr [js ''ab'', js '' cd'']"
    using regroup_words regroup_chars by auto
  then have "split_token segment \<lparr>token = js ''ab cd'', color = col\<rparr> =
      Inr [\<lparr>token = js ''ab'', color = col\<rparr>, \<lparr>token = js '' cd'', color = col\<rparr>]"
    by (simp add: split_token_def)
  with assms(1) show ?thesis
    by (simp add: Code_tokens_def tokens_method_def computed_def)
qed

theorem tokens_glue_after_space_witness:
  "fst (Code_tokens (\<lambda>text st. [(0, 5, js ''.a'')]) example_lib each_char
     (example_node (js ''ab cd'') red_blue_style) no_caches) =
     Stream [\<lparr>token = js ''ab'', color = Some (js ''#ff0000'')\<rparr>,
             \<lparr>token = js '' cd'', color = Some (js ''#ff0000'')\<rparr>] \<and>
   fst (Code_tokens (\<lambda>text st. [(0, 5, js ''.a'')]) example_lib
     (\<lambda>s. [js ''ab'', js '' '', js ''cd'']) (example_node (js ''ab cd'') red_blue_style)
     no_caches) =
     Stream [\<lparr>token = js ''ab'', color = Some (js ''#ff0000'')\<rparr>,
             \<lparr>token = js '' cd'', color = Some (js ''#ff0000'')\<rparr>]"
proof -
  let ?hl = "\<lambda>(text :: jsstring) (st :: HighlightStyle). [(0 :: nat, 5 :: nat, js ''.a'')]"
  let ?node = "example_node (js ''ab cd'') red_blue_style"
  let ?span = "[\<lparr>token = js ''ab cd'', color = Some (js ''#ff0000'')\<rparr>]"
  have h: "highlighted ?hl example_lib ?node no_caches =
             (Stream ?span, no_caches\<lparr>newHighlighted_last := Stream ?span,
                                       highlighted_last := Stream ?span\<rparr>)"
    by code_simp
  have s1: "each_char (js ''ab cd'') = [js ''a'', js ''b'', js '' '', js ''c'', js ''d'']"
    by code_simp
  from tokens_glue_after_space [of ?hl example_lib ?node no_caches _ _ each_char, OF h] s1
  have a: "fst (Code_tokens ?hl example_lib each_char ?node no_caches) =
     Stream [\<lparr>token = js ''ab'', color = Some (js ''#ff0000'')\<rparr>,
             \<lparr>token = js '' cd'', color = Some (js ''#ff0000'')\<rparr>]"
    by simp
  from tokens_glue_after_space
         [of ?hl example_lib ?node no_caches _ _ "\<lambda>s. [js ''ab'', js '' '', js ''cd'']", OF h]
  have b: "fst (Code_tokens ?hl example_lib (\<lambda>s. [js ''ab'', js '' '', js ''cd'']) ?node
                  no_caches) =
     Stream [\<lparr>token = js ''ab'', color = Some (js ''#ff0000'')\<rparr>,
             \<lparr>token = js '' cd'', color = Some (js ''#ff0000'')\<rparr>]"
    by simp
  from a b show ?thesis by blast
qed

section \<open>Blending\<close>







text \<open>
  A colour that the library cannot read, such as the \<open>undefined\<close> of a rule without
  a colour, makes \<open>blendHsl\<close> throw; the wrapper of \<open>highlighted\<close> logs the exception
  and returns the last value, here \<open>undefined\<close>.
\<close>

lemma blend_unreadable_colour:
  "highlighted (\<lambda>text st. [(0, 2, js ''.'')]) example_lib
     ((example_node (js ''ab'') green_style)
        \<lparr>oldStyle := Some bold_style, styleProgress := Some 0\<rparr>) no_caches =
   (Undefined,
    no_caches\<lparr>newHighlighted_last := Stream [\<lparr>token = js ''ab'', color = Some (js ''#00ff00'')\<rparr>],
              oldHighlighted_last := Stream [\<lparr>token = js ''ab'', color = None\<rparr>],
              logged := [ColorUnreadable]\<rparr>)"
  by code_simp

section \<open>The transition\<close>

text \<open>The only exception of \<open>highlight\<close> is the one for a class list without a rule.\<close>

lemma callback_error: "callback this st h tr = Inl e \<Longrightarrow> e = RuleUndefined"
proof -
  assume c: "callback this st h tr = Inl e"
  obtain "from" to classList where tr: "tr = (from, to, classList)" by (cases tr)
  show ?thesis
  proof (cases "find_rule st classList")
    case None
    with c tr show ?thesis by (simp add: callback_def)
  next
    case (Some rule)
    from callback_spec [OF Some, of this h "from" to] c tr show ?thesis by auto
  qed
qed

lemma walk_error: "walk this st h trs = Inl e \<Longrightarrow> e = RuleUndefined"
proof (induction trs arbitrary: h)
  case Nil
  then show ?case by simp
next
  case (Cons tr trs)
  show ?case
  proof (cases "callback this st h tr")
    case (Inl e')
    with Cons.prems callback_error [of this st h tr e'] show ?thesis by simp
  next
    case (Inr h')
    with Cons.prems Cons.IH [of h'] show ?thesis by simp
  qed
qed

lemma highlight_error: "highlight hl this st = Inl e \<Longrightarrow> e = RuleUndefined"
  by (auto simp: highlight_def highlight_walk_def split: sum.splits dest: walk_error)

lemma newHighlighted_never_null:
  "never_null c \<Longrightarrow> never_null (snd (newHighlighted hl this c))"
  by (auto simp: newHighlighted_def computed_def never_null_def
      split: option.splits sum.splits dest: highlight_error)

lemma oldHighlighted_never_null:
  "oldStyle this \<noteq> None \<Longrightarrow> never_null c \<Longrightarrow>
   never_null (snd (oldHighlighted hl this c)) \<and> fst (oldHighlighted hl this c) \<noteq> Null"
  by (auto simp: oldHighlighted_def computed_def never_null_def
      split: option.splits sum.splits dest: highlight_error)

lemma blend_tokens_error:
  "blend_tokens lib amount new old = Inl e \<Longrightarrow> e = OldTokenUndefined \<or> e = ColorUnreadable"
  by (induction lib amount new old rule: blend_tokens.induct)
     (auto simp: blendHsl_def split: option.splits sum.splits)

lemma highlighted_method_never_null:
  assumes "styleProgress this \<noteq> None \<longrightarrow> oldStyle this \<noteq> None" and "never_null c"
  shows "never_null (snd (highlighted_method hl lib this c)) \<and>
         fst (highlighted_method hl lib this c) \<noteq> Inl OldHighlightedNull"
proof -
  obtain new c1 where n: "newHighlighted hl this c = (new, c1)" by (cases "newHighlighted hl this c")
  with assms(2) newHighlighted_never_null [of c hl this] have c1: "never_null c1" by simp
  show ?thesis
  proof (cases "styleProgress this")
    case None
    with n c1 show ?thesis by (simp add: highlighted_method_def)
  next
    case (Some progress)
    with assms(1) have os: "oldStyle this \<noteq> None" by simp
    obtain old c2 where o: "oldHighlighted hl this c1 = (old, c2)"
      by (cases "oldHighlighted hl this c1")
    with oldHighlighted_never_null [OF os c1, of hl] have c2: "never_null c2" and on: "old \<noteq> Null"
      by simp_all
    from Some n o c1 c2 on show ?thesis
      by (auto simp: highlighted_method_def split: stream.splits sum.splits
          dest: blend_tokens_error)
  qed
qed

lemma computed_never_null:
  assumes "never_null (snd r)" and "fst r \<noteq> Inl OldHighlightedNull"
    and "\<And>v c. oldHighlighted_last (store v c) = oldHighlighted_last c"
    and "\<And>v c. logged (store v c) = logged c"
  shows "never_null (snd (computed cached store r))"
  using assms by (cases r) (auto simp: computed_def never_null_def split: sum.splits)

lemma highlighted_never_null:
  assumes "styleProgress this \<noteq> None \<longrightarrow> oldStyle this \<noteq> None" and "never_null c"
  shows "never_null (snd (highlighted hl lib this c))"
  unfolding highlighted_def
  using highlighted_method_never_null [OF assms, of hl lib]
  by (intro computed_never_null) simp_all

lemma split_tokens_total: "\<exists>cs. split_tokens segment ts = Inr cs"
proof (induction ts)
  case Nil
  then show ?case by simp
next
  case (Cons t ts)
  from regroup_total [of "segment (token t)"] obtain chars where
    "regroup (segment (token t)) = Inr chars" by blast
  with Cons show ?case by (auto simp: split_token_def)
qed

lemma tokens_never_null:
  assumes "styleProgress this \<noteq> None \<longrightarrow> oldStyle this \<noteq> None" and "never_null c"
  shows "never_null (snd (Code_tokens hl lib segment this c))"
proof -
  obtain h c1 where h: "highlighted hl lib this c = (h, c1)" by (cases "highlighted hl lib this c")
  with highlighted_never_null [OF assms, of hl lib] have c1: "never_null c1" by simp
  have "never_null (snd (tokens_method hl lib segment this c)) \<and>
        fst (tokens_method hl lib segment this c) \<noteq> Inl OldHighlightedNull"
  proof (cases h)
    case (Stream ts)
    from split_tokens_total [of segment ts] obtain cs where "split_tokens segment ts = Inr cs"
      by blast
    with h c1 Stream show ?thesis by (simp add: tokens_method_def)
  qed (use h c1 in \<open>simp_all add: tokens_method_def\<close>)
  then show ?thesis
    unfolding Code_tokens_def by (intro computed_never_null) simp_all
qed

lemma step_tween_inv: "step lib r r' \<Longrightarrow> tween_inv r \<Longrightarrow> tween_inv r'"
proof (induction rule: step.induct)
  case (render r hl segment)
  then have "styleProgress (node r) \<noteq> None \<longrightarrow> oldStyle (node r) \<noteq> None"
    and "never_null (cache r)"
    by (auto simp: tween_inv_def never_null_def)
  from tokens_never_null [OF this, of hl lib segment] render show ?case
    by (auto simp: tween_inv_def never_null_def)
qed (auto simp: tween_inv_def split: pc.splits)

lemma reachable_tween_inv: "reachable_from lib r0 r \<Longrightarrow> tween_inv r0 \<Longrightarrow> tween_inv r"
  by (induction rule: reachable_from.induct) (auto intro: step_tween_inv)

lemma constructed_tween_inv: "constructed r \<Longrightarrow> style (node r) \<noteq> None \<Longrightarrow> tween_inv r"
  by (simp add: constructed_def tween_inv_def no_caches_def)

lemma tween_inv_progress:
  "tween_inv r \<Longrightarrow> styleProgress (node r) \<noteq> None \<Longrightarrow> oldStyle (node r) \<noteq> None"
  by (auto simp: tween_inv_def split: pc.splits)

text \<open>From the call of \<open>tweenStyle\<close> to its \<open>yield\<close>, and from the end of the tween on.\<close>

lemma run_to_yield:
  assumes "reachable_from lib r0 r" and "pc r = Idle"
  shows "reachable_from lib r0
           (r\<lparr>node := (node r)\<lparr>oldStyle := style (node r), style := Some v,
                               styleProgress := Some 0\<rparr>,
              pc := L67\<rparr>)"
proof -
  let ?r1 = "r\<lparr>pc := L64 v\<rparr>"
  let ?r2 = "r\<lparr>node := (node r)\<lparr>oldStyle := style (node r)\<rparr>, pc := L65 v\<rparr>"
  let ?r3 = "r\<lparr>node := (node r)\<lparr>oldStyle := style (node r), style := Some v\<rparr>, pc := L66\<rparr>"
  have "step lib r ?r1" using assms(2) by (rule step.call)
  with assms(1) have 1: "reachable_from lib r0 ?r1" by (rule after_step)
  have "step lib ?r1 ?r2" using step.line64 [of ?r1 v lib] by simp
  with 1 have 2: "reachable_from lib r0 ?r2" by (rule after_step)
  have "step lib ?r2 ?r3" using step.line65 [of ?r2 v lib] by simp
  with 2 have 3: "reachable_from lib r0 ?r3" by (rule after_step)
  have "step lib ?r3
          (r\<lparr>node := (node r)\<lparr>oldStyle := style (node r), style := Some v,
                              styleProgress := Some 0\<rparr>, pc := L67\<rparr>)"
    using step.line66 [of ?r3 lib] by simp
  with 3 show ?thesis by (rule after_step)
qed

lemma run_from_yield:
  assumes "reachable_from lib r0 r" and "pc r = L67"
  shows "reachable_from lib r0
           (r\<lparr>node := (node r)\<lparr>styleProgress := None, oldStyle := None\<rparr>, pc := Idle\<rparr>)"
proof -
  let ?r1 = "r\<lparr>node := (node r)\<lparr>styleProgress := Some 1\<rparr>, pc := L68\<rparr>"
  let ?r2 = "r\<lparr>node := (node r)\<lparr>styleProgress := None\<rparr>, pc := L69\<rparr>"
  have "step lib r ?r1" using assms(2) by (rule step.line67_end)
  with assms(1) have 1: "reachable_from lib r0 ?r1" by (rule after_step)
  have "step lib ?r1 ?r2" using step.line68 [of ?r1 lib] by simp
  with 1 have 2: "reachable_from lib r0 ?r2" by (rule after_step)
  have "step lib ?r2 (r\<lparr>node := (node r)\<lparr>styleProgress := None, oldStyle := None\<rparr>, pc := Idle\<rparr>)"
    using step.line69 [of ?r2 lib] by simp
  with 2 show ?thesis by (rule after_step)
qed

lemma frame_at_yield:
  assumes "reachable_from lib r0 r" and "pc r = L67"
  shows "reachable_from lib r0 (r\<lparr>node := (node r)\<lparr>styleProgress := Some p\<rparr>\<rparr>)"
  using assms(1) step.line67_frame [OF assms(2), of lib p] by (rule after_step)

text \<open>A stretch of one run, seen as a stretch of two runs of which the other one waits.\<close>

lemma first_runs:
  assumes "reachable_from lib \<lparr>node = n, cache = c, pc = p\<rparr> r" and "at_yield q"
    and "reachable_two_from lib s (n, c, p, q)"
  shows "reachable_two_from lib s (node r, cache r, pc r, q)"
  using assms(1)
proof (induction rule: reachable_from.induct)
  case at_start
  from assms(3) show ?case by simp
next
  case (after_step r r')
  have "\<lparr>node = node r, cache = cache r, pc = pc r\<rparr> = r"
    and "\<lparr>node = node r', cache = cache r', pc = pc r'\<rparr> = r'"
    by (cases r, simp) (cases r', simp)
  with after_step.hyps(2) have "step lib \<lparr>node = node r, cache = cache r, pc = pc r\<rparr>
      \<lparr>node = node r', cache = cache r', pc = pc r'\<rparr>"
    by metis
  with assms(2) have "step_two lib (node r, cache r, pc r, q) (node r', cache r', pc r', q)"
    by (rule first)
  with after_step.IH show ?case by (rule after_step_two)
qed

lemma second_runs:
  assumes "reachable_from lib \<lparr>node = n, cache = c, pc = q\<rparr> r" and "at_yield p"
    and "reachable_two_from lib s (n, c, p, q)"
  shows "reachable_two_from lib s (node r, cache r, p, pc r)"
  using assms(1)
proof (induction rule: reachable_from.induct)
  case at_start
  from assms(3) show ?case by simp
next
  case (after_step r r')
  have "\<lparr>node = node r, cache = cache r, pc = pc r\<rparr> = r"
    and "\<lparr>node = node r', cache = cache r', pc = pc r'\<rparr> = r'"
    by (cases r, simp) (cases r', simp)
  with after_step.hyps(2) have "step lib \<lparr>node = node r, cache = cache r, pc = pc r\<rparr>
      \<lparr>node = node r', cache = cache r', pc = pc r'\<rparr>"
    by metis
  with assms(2) have "step_two lib (node r, cache r, p, pc r) (node r', cache r', p, pc r')"
    by (rule second)
  with after_step.IH show ?case by (rule after_step_two)
qed

text \<open>
  When \<open>highlight\<close> does not throw for the old style, \<open>oldHighlighted\<close> returns
  its tokens; it returns \<open>undefined\<close> only after an exception, when no earlier
  value is kept.
\<close>

lemma oldHighlighted_tokens:
  "oldStyle this = Some st \<Longrightarrow> highlight hl this st = Inr ts \<Longrightarrow>
   oldHighlighted hl this c = (Stream ts, c\<lparr>oldHighlighted_last := Stream ts\<rparr>)"
  by (simp add: oldHighlighted_def computed_def)

text \<open>
  C10, as amended. Let the node be constructed with a style, and let at most one run
  of \<open>tweenStyle\<close> be in progress at a time. Then in every state reached by the
  steps of \<open>tweenStyle\<close> and of the host, \<open>styleProgress\<close> is not \<open>null\<close> only when
  \<open>oldStyle\<close> is set, and \<open>highlighted\<close> does not read an index of a \<open>null\<close>
  \<open>oldHighlighted()\<close>.
\<close>

theorem progress_only_with_old_style:
  assumes "constructed r0" and "style (node r0) \<noteq> None" and "reachable_from lib r0 r"
  shows "(styleProgress (node r) \<noteq> None \<longrightarrow> oldStyle (node r) \<noteq> None) \<and>
         OldHighlightedNull \<notin> set (logged (snd (highlighted hl lib' (node r) (cache r))))"
proof -
  from assms have inv: "tween_inv r"
    using constructed_tween_inv reachable_tween_inv by blast
  then have a: "styleProgress (node r) \<noteq> None \<longrightarrow> oldStyle (node r) \<noteq> None"
    using tween_inv_progress by blast
  from inv have "never_null (cache r)" by (simp add: tween_inv_def never_null_def)
  from highlighted_never_null [OF a this, of hl lib'] a show ?thesis
    by (simp add: never_null_def)
qed

theorem progress_only_with_old_style_witness:
  "constructed \<lparr>node = example_node (js ''ab'') green_style, cache = no_caches, pc = Idle\<rparr> \<and>
   style (node \<lparr>node = example_node (js ''ab'') green_style, cache = no_caches, pc = Idle\<rparr>)
     \<noteq> None \<and>
   reachable_from example_lib
     \<lparr>node = example_node (js ''ab'') green_style, cache = no_caches, pc = Idle\<rparr>
     \<lparr>node = (example_node (js ''ab'') green_style)
               \<lparr>oldStyle := Some green_style, style := Some red_blue_style,
                styleProgress := Some (1 / 2)\<rparr>,
      cache = no_caches, pc = L67\<rparr> \<and>
   fst (highlighted (\<lambda>text st. [(0, 2, js ''.a'')]) example_lib
          ((example_node (js ''ab'') green_style)
             \<lparr>oldStyle := Some green_style, style := Some red_blue_style,
              styleProgress := Some (1 / 2)\<rparr>) no_caches) =
     Stream [\<lparr>token = js ''ab'', color = Some (js ''#00ff00'')\<rparr>] \<and>
   OldHighlightedNull \<notin> set (logged (snd
     (highlighted (\<lambda>text st. [(0, 2, js ''.a'')]) example_lib
        ((example_node (js ''ab'') green_style)
           \<lparr>oldStyle := Some green_style, style := Some red_blue_style,
            styleProgress := Some (1 / 2)\<rparr>) no_caches)))"
proof -
  let ?nstart = "example_node (js ''ab'') green_style"
  let ?rstart = "\<lparr>node = ?nstart, cache = no_caches, pc = Idle\<rparr>"
  let ?n = "?nstart\<lparr>oldStyle := Some green_style, style := Some red_blue_style,
                 styleProgress := Some (1 / 2)\<rparr>"
  let ?r = "\<lparr>node = ?n, cache = no_caches, pc = L67\<rparr>"
  let ?hl = "\<lambda>(text :: jsstring) (st :: HighlightStyle). [(0 :: nat, 2 :: nat, js ''.a'')]"
  have c: "constructed ?rstart" unfolding constructed_def by (simp add: example_node_def)
  have s: "style (node ?rstart) \<noteq> None" by (simp add: example_node_def)
  have "reachable_from example_lib ?rstart ?rstart" by (rule at_start)
  from run_to_yield [OF this, of red_blue_style]
  have "reachable_from example_lib ?rstart
          \<lparr>node = ?nstart\<lparr>oldStyle := Some green_style, style := Some red_blue_style,
                        styleProgress := Some 0\<rparr>, cache = no_caches, pc = L67\<rparr>"
    by (simp add: example_node_def)
  from frame_at_yield [OF this, of "1 / 2"]
  have r: "reachable_from example_lib ?rstart ?r" by (simp add: example_node_def)
  have b: "fst (highlighted ?hl example_lib ?n no_caches) =
             Stream [\<lparr>token = js ''ab'', color = Some (js ''#00ff00'')\<rparr>]"
    by code_simp
  from progress_only_with_old_style [OF c s r, of ?hl example_lib]
  have "OldHighlightedNull \<notin> set (logged (snd (highlighted ?hl example_lib ?n no_caches)))"
    by simp
  with c s r b show ?thesis by blast
qed

text \<open>
  C10, as stated, fails, in two ways. On a node constructed without a style, line 64
  of a single run stores \<open>undefined\<close> in \<open>oldStyle\<close> and line 66 stores 0 in
  \<open>styleProgress\<close>. On a node with a style, a first run is suspended in its tween, a
  second run starts and ends, which sets \<open>styleProgress\<close> and \<open>oldStyle\<close> to
  \<open>null\<close>, and the next frame of the first run stores a number in
  \<open>styleProgress\<close>. In both states \<open>oldStyle\<close> is not set, \<open>styleProgress\<close> is not
  \<open>null\<close>, and \<open>highlighted\<close> throws at \<open>this.oldHighlighted()[i]\<close> on \<open>null\<close>.
\<close>

theorem progress_without_old_style_counterexample:
  "constructed \<lparr>node = (example_node (js ''ab'') green_style)\<lparr>style := None\<rparr>,
                cache = no_caches, pc = Idle\<rparr> \<and>
   reachable_from example_lib
     \<lparr>node = (example_node (js ''ab'') green_style)\<lparr>style := None\<rparr>,
      cache = no_caches, pc = Idle\<rparr>
     \<lparr>node = (example_node (js ''ab'') red_blue_style)\<lparr>styleProgress := Some 0\<rparr>,
      cache = no_caches, pc = L67\<rparr> \<and>
   oldStyle ((example_node (js ''ab'') red_blue_style)\<lparr>styleProgress := Some 0\<rparr>) = None \<and>
   logged (snd (highlighted (\<lambda>text st. [(0, 2, js ''.a'')]) example_lib
     ((example_node (js ''ab'') red_blue_style)\<lparr>styleProgress := Some 0\<rparr>) no_caches)) =
     [OldHighlightedNull] \<and>
   constructed \<lparr>node = example_node (js ''ab'') green_style, cache = no_caches, pc = Idle\<rparr> \<and>
   reachable_two_from example_lib
     (example_node (js ''ab'') green_style, no_caches, Idle, Idle)
     ((example_node (js ''ab'') red_blue_style)\<lparr>styleProgress := Some (1 / 2)\<rparr>,
      no_caches, L67, Idle) \<and>
   oldStyle ((example_node (js ''ab'') red_blue_style)\<lparr>styleProgress := Some (1 / 2)\<rparr>) = None \<and>
   logged (snd (highlighted (\<lambda>text st. [(0, 2, js ''.a'')]) example_lib
     ((example_node (js ''ab'') red_blue_style)\<lparr>styleProgress := Some (1 / 2)\<rparr>) no_caches)) =
     [OldHighlightedNull]"
proof -
  let ?hl = "\<lambda>(text :: jsstring) (st :: HighlightStyle). [(0 :: nat, 2 :: nat, js ''.a'')]"
  let ?plain = "(example_node (js ''ab'') green_style)\<lparr>style := None\<rparr>"
  let ?green = "example_node (js ''ab'') green_style"
  let ?zero = "(example_node (js ''ab'') red_blue_style)\<lparr>styleProgress := Some 0\<rparr>"
  let ?half = "(example_node (js ''ab'') red_blue_style)\<lparr>styleProgress := Some (1 / 2)\<rparr>"
  let ?startplain = "\<lparr>node = ?plain, cache = no_caches, pc = Idle\<rparr>"
  let ?startgreen = "\<lparr>node = ?green, cache = no_caches, pc = Idle\<rparr>"

  have c1: "constructed ?startplain"
    unfolding constructed_def by (simp add: example_node_def)
  have "reachable_from example_lib ?startplain ?startplain" by (rule at_start)
  from run_to_yield [OF this, of red_blue_style]
  have r1: "reachable_from example_lib ?startplain \<lparr>node = ?zero, cache = no_caches, pc = L67\<rparr>"
    by (simp add: example_node_def)
  have o1: "oldStyle ?zero = None" by (simp add: example_node_def)
  have l1: "logged (snd (highlighted ?hl example_lib ?zero no_caches)) = [OldHighlightedNull]"
    by code_simp

  have c2: "constructed ?startgreen"
    unfolding constructed_def by (simp add: example_node_def)
  let ?mid = "?green\<lparr>oldStyle := Some green_style, style := Some bold_style,
                      styleProgress := Some 0\<rparr>"
  have y: "at_yield Idle" "at_yield L67" by (simp_all add: at_yield_def)
  have "reachable_from example_lib ?startgreen ?startgreen" by (rule at_start)
  from run_to_yield [OF this, of bold_style]
  have "reachable_from example_lib ?startgreen \<lparr>node = ?mid, cache = no_caches, pc = L67\<rparr>"
    by (simp add: example_node_def)
  from first_runs [OF this y(1) at_start_two]
  have t1: "reachable_two_from example_lib (?green, no_caches, Idle, Idle)
              (?mid, no_caches, L67, Idle)"
    by (simp add: example_node_def)

  let ?second = "\<lparr>node = ?mid, cache = no_caches, pc = Idle\<rparr>"
  let ?done = "?mid\<lparr>oldStyle := None, style := Some red_blue_style, styleProgress := None\<rparr>"
  have "reachable_from example_lib ?second ?second" by (rule at_start)
  from run_to_yield [OF this, of red_blue_style]
  have "reachable_from example_lib ?second
          \<lparr>node = ?mid\<lparr>oldStyle := Some bold_style, style := Some red_blue_style,
                          styleProgress := Some 0\<rparr>, cache = no_caches, pc = L67\<rparr>"
    by (simp add: example_node_def)
  from run_from_yield [OF this]
  have "reachable_from example_lib ?second \<lparr>node = ?done, cache = no_caches, pc = Idle\<rparr>"
    by (simp add: example_node_def)
  from second_runs [OF this y(2) t1]
  have t2: "reachable_two_from example_lib (?green, no_caches, Idle, Idle)
              (?done, no_caches, L67, Idle)"
    by (simp add: example_node_def)

  let ?first = "\<lparr>node = ?done, cache = no_caches, pc = L67\<rparr>"
  have "reachable_from example_lib ?first ?first" by (rule at_start)
  from frame_at_yield [OF this, of "1 / 2"]
  have "reachable_from example_lib ?first \<lparr>node = ?half, cache = no_caches, pc = L67\<rparr>"
    by (simp add: example_node_def)
  from first_runs [OF this y(1) t2]
  have r2: "reachable_two_from example_lib (?green, no_caches, Idle, Idle)
              (?half, no_caches, L67, Idle)"
    by (simp add: example_node_def)
  have o2: "oldStyle ?half = None" by (simp add: example_node_def)
  have l2: "logged (snd (highlighted ?hl example_lib ?half no_caches)) = [OldHighlightedNull]"
    by code_simp
  from c1 r1 o1 l1 c2 r2 o2 l2 show ?thesis by blast
qed

end
